theory Spec2Isabelle
  imports Complex_Main "HOL-Library.Multiset"
begin

section \<open>Closeness vitality of nx\_parallel (algorithms/vitality.py)\<close>

text \<open>
  The source is one function, \<^verbatim>\<open>closeness_vitality(G, node, weight, wiener_index)\<close>:
  four \<^verbatim>\<open>isinstance\<close> tests that convert a wrapped graph to the plain graph \<open>I\<close>
  (lines 65 to 72), the whole-graph Wiener index when the caller gave none (lines 73
  to 74), the single-node branch (lines 75 to 77), and the fan-out over the nodes of
  \<open>I\<close> that calls the function again for every node and collects a dictionary (lines
  78 to 82). Exceptions are values of a sum type; the library's
  \<^verbatim>\<open>nx.wiener_index\<close> is a parameter.
\<close>

subsection \<open>Numbers: floats with their infinities\<close>

text \<open>
  The Wiener index and the vitality are Python numbers. The source subtracts them
  (\<^verbatim>\<open>wiener_index - after\<close>) and the library returns \<^verbatim>\<open>float("inf")\<close> for a
  graph with an unreachable pair, so the model keeps the special values of a float:
  both infinities and the not-a-number that \<^verbatim>\<open>inf - inf\<close> yields. Finite values are
  exact reals (rounding is not modelled).
\<close>

datatype scalar = Fin real | PInf | NInf | NaN

fun fsub :: "scalar \<Rightarrow> scalar \<Rightarrow> scalar" where
  "fsub NaN y = NaN"
| "fsub x NaN = NaN"
| "fsub (Fin a) (Fin b) = Fin (a - b)"
| "fsub (Fin a) PInf = NInf"
| "fsub (Fin a) NInf = PInf"
| "fsub PInf PInf = NaN"
| "fsub PInf y = PInf"
| "fsub NInf NInf = NaN"
| "fsub NInf y = NInf"

fun fadd :: "scalar \<Rightarrow> scalar \<Rightarrow> scalar" where
  "fadd NaN y = NaN"
| "fadd x NaN = NaN"
| "fadd (Fin a) (Fin b) = Fin (a + b)"
| "fadd (Fin a) y = y"
| "fadd PInf NInf = NaN"
| "fadd PInf y = PInf"
| "fadd NInf PInf = NaN"
| "fadd NInf y = NInf"

fun fmin :: "scalar \<Rightarrow> scalar \<Rightarrow> scalar" where
  "fmin (Fin a) (Fin b) = Fin (min a b)"
| "fmin (Fin a) PInf = Fin a"
| "fmin PInf (Fin b) = Fin b"
| "fmin NInf y = NInf"
| "fmin x NInf = NInf"
| "fmin PInf PInf = PInf"
| "fmin NaN y = y"
| "fmin x NaN = x"

fun fhalf :: "scalar \<Rightarrow> scalar" where
  "fhalf (Fin a) = Fin (a / 2)"
| "fhalf x = x"

subsection \<open>Graphs\<close>

text \<open>
  A networkx graph as far as this function reads it: whether it is directed, its nodes
  in iteration order, and its edges with their attribute dictionaries (parallel edges
  of a multigraph are repeated entries).
\<close>

record 'n graph =
  directed :: bool
  nodes :: "'n list"
  edges :: "('n \<times> 'n \<times> (string \<times> real) list) list"

text \<open>\<^verbatim>\<open>G.subgraph(S)\<close>: the induced subgraph on the nodes of \<open>S\<close>.\<close>

definition subgraph :: "'n graph \<Rightarrow> 'n set \<Rightarrow> 'n graph" where
  "subgraph g S =
     g\<lparr>nodes := filter (\<lambda>x. x \<in> S) (nodes g),
       edges := filter (\<lambda>(u, v, d). u \<in> S \<and> v \<in> S) (edges g)\<rparr>"

text \<open>
  Modelled from the spec: the four wrapper classes of \<^verbatim>\<open>nx_parallel.classes.graph\<close>
  are imported by the source but are not among its files. The spec describes them as
  parallel-graph wrapper variants of a plain graph that \<^verbatim>\<open>to_networkx\<close> converts back
  to the plain representation; iterating a wrapper and taking a subgraph of it act on
  the graph it carries. An object is either a plain graph or a graph carried by one of
  the four wrappers.
\<close>

datatype wrapper = ParallelGraph | ParallelDiGraph | ParallelMultiGraph | ParallelMultiDiGraph

datatype 'n graph_obj = Plain "'n graph" | Wrapped wrapper "'n graph"

fun graph_of :: "'n graph_obj \<Rightarrow> 'n graph" where
  "graph_of (Plain g) = g"
| "graph_of (Wrapped c g) = g"

fun isinstance :: "'n graph_obj \<Rightarrow> wrapper \<Rightarrow> bool" where
  "isinstance (Plain g) c = False"
| "isinstance (Wrapped k g) c = (k = c)"

definition to_networkx :: "'n graph_obj \<Rightarrow> 'n graph" where
  "to_networkx G = graph_of G"

subsection \<open>Errors, results and the collaborators\<close>

datatype error = UnboundLocalError string | LibraryError string

text \<open>
  The function returns a number for one node and a dictionary for all nodes. A Python
  dictionary is an association list with unique keys in insertion order.
\<close>

datatype 'n pyval = Num scalar | Dict "('n \<times> 'n pyval) list"

fun dict_set :: "('k \<times> 'v) list \<Rightarrow> 'k \<Rightarrow> 'v \<Rightarrow> ('k \<times> 'v) list" where
  "dict_set [] k v = [(k, v)]"
| "dict_set ((k', v') # d) k v =
     (if k' = k then (k', v) # d else (k', v') # dict_set d k v)"

text \<open>\<^verbatim>\<open>dict(pairs)\<close>: the pairs are stored one after the other; a later pair with a
  key already present replaces its value.\<close>

definition dict :: "('k \<times> 'v) list \<Rightarrow> ('k \<times> 'v) list" where
  "dict ps = foldl (\<lambda>d (k, v). dict_set d k v) [] ps"

text \<open>
  \<^verbatim>\<open>nx.wiener_index\<close> belongs to networkx, not to this repository: it is a parameter
  of the model, a function of a graph and the weight attribute that returns a number
  or raises.
\<close>

type_synonym 'n wiener = "'n graph \<Rightarrow> string option \<Rightarrow> error + scalar"

text \<open>
  \<^verbatim>\<open>Parallel(n_jobs=-1)(tasks)\<close> runs the tasks and returns their results as a list
  in task order; a task that raises makes the whole call raise.
\<close>

fun Parallel :: "(error + 'a) list \<Rightarrow> error + 'a list" where
  "Parallel [] = Inr []"
| "Parallel (t # ts) =
     (case t of
        Inl e \<Rightarrow> Inl e
      | Inr r \<Rightarrow> (case Parallel ts of Inl e \<Rightarrow> Inl e | Inr rs \<Rightarrow> Inr (r # rs)))"

subsection \<open>The graph adapter (lines 65 to 72)\<close>

text \<open>
  Four independent \<^verbatim>\<open>if isinstance\<close> statements assign the local \<open>I\<close>; there is no
  \<^verbatim>\<open>else\<close>. \<open>None\<close> is the local still unbound.
\<close>

definition adapter :: "'n graph_obj \<Rightarrow> 'n graph option" where
  "adapter G =
     (let I0 = None;
          I1 = (if isinstance G ParallelMultiDiGraph then Some (to_networkx G) else I0);
          I2 = (if isinstance G ParallelMultiGraph then Some (to_networkx G) else I1);
          I3 = (if isinstance G ParallelDiGraph then Some (to_networkx G) else I2);
          I4 = (if isinstance G ParallelGraph then Some (to_networkx G) else I3)
      in I4)"

text \<open>Reading the local \<open>I\<close>: an unbound local raises.\<close>

definition read_I :: "'a option \<Rightarrow> error + 'a" where
  "read_I I = (case I of None \<Rightarrow> Inl (UnboundLocalError ''I'') | Some i \<Rightarrow> Inr i)"

subsection \<open>closeness\_vitality (lines 8 to 82)\<close>

text \<open>
  Lines 73 to 74: the whole-graph Wiener index is the caller's value, or is computed by
  the library from the local \<open>I\<close> when the caller gave none.
\<close>

definition whole_index ::
  "'n wiener \<Rightarrow> 'n graph option \<Rightarrow> string option \<Rightarrow> scalar option \<Rightarrow> error + scalar" where
  "whole_index wi I weight wiener_index =
     (case wiener_index of
        None \<Rightarrow> (case read_I I of Inl e \<Rightarrow> Inl e | Inr i \<Rightarrow> wi i weight)
      | Some w \<Rightarrow> Inr w)"

text \<open>
  The function calls itself once per node (through \<^verbatim>\<open>partial\<close>) with the plain graph
  \<open>I\<close>, the node and the whole-graph index; those calls take the single-node branch.
\<close>

function closeness_vitality ::
  "'n wiener \<Rightarrow> 'n graph_obj \<Rightarrow> 'n option \<Rightarrow> string option \<Rightarrow> scalar option
     \<Rightarrow> error + 'n pyval" where
  "closeness_vitality wi G node weight wiener_index =
     (let I = adapter G in
      case whole_index wi I weight wiener_index of
        Inl e \<Rightarrow> Inl e
      | Inr wiener_index \<Rightarrow>
          (case node of
             Some v \<Rightarrow>
               (case wi (subgraph (graph_of G) (set (nodes (graph_of G)) - {v})) weight of
                  Inl e \<Rightarrow> Inl e
                | Inr after \<Rightarrow> Inr (Num (fsub wiener_index after)))
           | None \<Rightarrow>
               (case read_I I of
                  Inl e \<Rightarrow> Inl e
                | Inr i \<Rightarrow>
                    (case Parallel
                            (map (\<lambda>v. case closeness_vitality wi (Plain i) (Some v) weight
                                             (Some wiener_index) of
                                         Inl e \<Rightarrow> Inl e
                                       | Inr r \<Rightarrow> Inr (v, r))
                               (nodes i)) of
                       Inl e \<Rightarrow> Inl e
                     | Inr result \<Rightarrow> Inr (Dict (dict result))))))"
  by pat_completeness auto
termination
  by (relation "measure (\<lambda>(wi, G, node, weight, w). if node = None then 1 else 0)") auto

subsection \<open>The Wiener index of the library\<close>

text \<open>
  Modelled from the spec: \<^verbatim>\<open>nx.wiener_index\<close> is the external collaborator "taking a
  graph and optional weight attribute, returning a scalar"; the glossary defines the
  Wiener index as the sum of shortest-path distances over all pairs of nodes, and an
  unreachable pair makes it infinite. The docstring's example (vitality 2.0 on the
  3-cycle) fixes the count of an undirected graph: each unordered pair once, that is
  half the sum over ordered pairs.

  An edge has length 1 without a weight attribute, and the value of the attribute
  (1 when the edge does not carry it) with one. An undirected edge is an arc in both
  directions.

  Beyond the spec's words, networkx checks connectivity first, and connectivity is
  undefined for the null graph: there the library raises
  \<^verbatim>\<open>NetworkXPointlessConcept\<close>. The removal of the only node of a one-node graph
  leaves the null graph. The distances are those of non-negative edge lengths; what
  networkx does with negative lengths is not modelled, and no statement below uses the
  model there.
\<close>

definition edge_length :: "string option \<Rightarrow> (string \<times> real) list \<Rightarrow> real" where
  "edge_length weight d =
     (case weight of
        None \<Rightarrow> 1
      | Some a \<Rightarrow> (case map_of d a of None \<Rightarrow> 1 | Some x \<Rightarrow> x))"

definition arcs :: "'n graph \<Rightarrow> string option \<Rightarrow> ('n \<times> 'n \<times> real) list" where
  "arcs g weight =
     (let es = map (\<lambda>(u, v, d). (u, v, edge_length weight d)) (edges g)
      in if directed g then es else es @ map (\<lambda>(u, v, l). (v, u, l)) es)"

text \<open>The length of a shortest path from \<open>s\<close> to \<open>t\<close> with at most \<open>k\<close> arcs;
  \<open>PInf\<close> when there is none.\<close>

primrec hops :: "nat \<Rightarrow> ('n \<times> 'n \<times> real) list \<Rightarrow> 'n \<Rightarrow> 'n \<Rightarrow> scalar" where
  "hops 0 A s t = (if s = t then Fin 0 else PInf)"
| "hops (Suc k) A s t =
     fold fmin
       (map (\<lambda>(u, v, l). fadd (hops k A s u) (Fin l)) (filter (\<lambda>(u, v, l). v = t) A))
       (hops k A s t)"

definition shortest_path_length :: "'n graph \<Rightarrow> string option \<Rightarrow> 'n \<Rightarrow> 'n \<Rightarrow> scalar" where
  "shortest_path_length g weight s t = hops (length (nodes g) - 1) (arcs g weight) s t"

definition nx_wiener_index :: "'n wiener" where
  "nx_wiener_index g weight =
     (if nodes g = [] then Inl (LibraryError ''NetworkXPointlessConcept'')
      else
        (let total = fold fadd
                       (concat (map (\<lambda>s. map (shortest_path_length g weight s) (nodes g))
                                  (nodes g)))
                       (Fin 0)
         in Inr (if directed g then total else fhalf total)))"

text \<open>A path between two nodes, for stating that a graph is disconnected.\<close>

definition arc_rel :: "'n graph \<Rightarrow> ('n \<times> 'n) set" where
  "arc_rel g = (\<lambda>(u, v, l). (u, v)) ` set (arcs g None)"

definition disconnected :: "'n graph \<Rightarrow> bool" where
  "disconnected g = (\<exists>a \<in> set (nodes g). \<exists>b \<in> set (nodes g). (a, b) \<notin> (arc_rel g)\<^sup>*)"

subsection \<open>Example graphs\<close>

text \<open>\<^verbatim>\<open>nx.cycle_graph(3)\<close>, the graph of the docstring.\<close>

definition cycle3 :: "int graph" where
  "cycle3 = \<lparr>directed = False, nodes = [0, 1, 2], edges = [(0, 1, []), (1, 2, []), (2, 0, [])]\<rparr>"

text \<open>\<^verbatim>\<open>nx.path_graph(3)\<close>: removing the middle node disconnects it.\<close>

definition path3 :: "int graph" where
  "path3 = \<lparr>directed = False, nodes = [0, 1, 2], edges = [(0, 1, []), (1, 2, [])]\<rparr>"

text \<open>\<^verbatim>\<open>nx.path_graph(1)\<close>: one node and no edge.\<close>

definition path1 :: "int graph" where
  "path1 = \<lparr>directed = False, nodes = [0], edges = []\<rparr>"

subsection \<open>The function over a store of graph objects\<close>

text \<open>
  The caller owns the graph: it is an object in a store, and the function receives a
  reference to it. This second model of the same function threads the store through
  every statement, so that what the call does to the objects, and which calls it makes
  to the library, can be stated. Its results are those of \<open>closeness_vitality\<close> above
  (lemma \<open>store_model_result\<close>).
\<close>

type_synonym ref = nat

text \<open>What the function does, in the order it does it: it is entered with a node and a
  Wiener index, it has the library compute the index of the whole graph (line 74), and
  it has the library compute the index of the graph without a node (line 76).\<close>

datatype 'n event = Enter "'n option" "scalar option" | Whole_index_call | Removed_index_call 'n

text \<open>The store holds the graph objects; the references below \<open>fresh\<close> are the
  objects that exist. \<open>calls\<close> is the log.\<close>

record 'n world =
  objects :: "ref \<Rightarrow> 'n graph_obj"
  fresh :: ref
  calls :: "'n event list"

definition new_object :: "'n graph_obj \<Rightarrow> 'n world \<Rightarrow> ref \<times> 'n world" where
  "new_object x s = (fresh s, s\<lparr>objects := (objects s)(fresh s := x), fresh := Suc (fresh s)\<rparr>)"

definition note_call :: "'n event \<Rightarrow> 'n world \<Rightarrow> 'n world" where
  "note_call e s = s\<lparr>calls := calls s @ [e]\<rparr>"

text \<open>
  Modelled from the spec: \<^verbatim>\<open>to_networkx\<close> of the wrapper classes (not among the
  sources) is a conversion without side effects; it yields the plain graph as a new
  object. \<^verbatim>\<open>G.subgraph(S)\<close> yields a new graph object too, and the library reads the
  object it is given: it is a function of the graph's content and has no access to
  the store.
\<close>

definition to_networkx_st :: "ref \<Rightarrow> 'n world \<Rightarrow> ref \<times> 'n world" where
  "to_networkx_st G s = new_object (Plain (to_networkx (objects s G))) s"

definition subgraph_st :: "ref \<Rightarrow> 'n set \<Rightarrow> 'n world \<Rightarrow> ref \<times> 'n world" where
  "subgraph_st G S s = new_object (Plain (subgraph (graph_of (objects s G)) S)) s"

definition wiener_index_st :: "'n wiener \<Rightarrow> ref \<Rightarrow> string option \<Rightarrow> 'n world \<Rightarrow> error + scalar" where
  "wiener_index_st wi G weight s = wi (graph_of (objects s G)) weight"

text \<open>Lines 65 to 72 over the store.\<close>

definition adapter_st :: "ref \<Rightarrow> 'n world \<Rightarrow> ref option \<times> 'n world" where
  "adapter_st G s0 =
     (let I0 = None;
          (I1, s1) = (if isinstance (objects s0 G) ParallelMultiDiGraph
                      then (let (r, s) = to_networkx_st G s0 in (Some r, s)) else (I0, s0));
          (I2, s2) = (if isinstance (objects s1 G) ParallelMultiGraph
                      then (let (r, s) = to_networkx_st G s1 in (Some r, s)) else (I1, s1));
          (I3, s3) = (if isinstance (objects s2 G) ParallelDiGraph
                      then (let (r, s) = to_networkx_st G s2 in (Some r, s)) else (I2, s2));
          (I4, s4) = (if isinstance (objects s3 G) ParallelGraph
                      then (let (r, s) = to_networkx_st G s3 in (Some r, s)) else (I3, s3))
      in (I4, s4))"

text \<open>Lines 73 to 74 over the store.\<close>

definition whole_index_st ::
  "'n wiener \<Rightarrow> ref option \<Rightarrow> string option \<Rightarrow> scalar option \<Rightarrow> 'n world
     \<Rightarrow> (error + scalar) \<times> 'n world" where
  "whole_index_st wi I weight wiener_index s =
     (case wiener_index of
        None \<Rightarrow>
          (case read_I I of
             Inl e \<Rightarrow> (Inl e, s)
           | Inr i \<Rightarrow> (wiener_index_st wi i weight s, note_call Whole_index_call s))
      | Some w \<Rightarrow> (Inr w, s))"

text \<open>The tasks of \<^verbatim>\<open>Parallel\<close>, run one after the other on the store; a task that
  raises ends the call.\<close>

fun run_tasks ::
  "('n \<Rightarrow> 'w \<Rightarrow> (error + 'a) \<times> 'w) \<Rightarrow> 'n list \<Rightarrow> 'w \<Rightarrow> (error + ('n \<times> 'a) list) \<times> 'w" where
  "run_tasks f [] s = (Inr [], s)"
| "run_tasks f (v # vs) s =
     (case f v s of
        (Inl e, s') \<Rightarrow> (Inl e, s')
      | (Inr r, s') \<Rightarrow>
          (case run_tasks f vs s' of
             (Inl e, s'') \<Rightarrow> (Inl e, s'')
           | (Inr rs, s'') \<Rightarrow> (Inr ((v, r) # rs), s'')))"

text \<open>The function itself, statement by statement as in the source.\<close>

function closeness_vitality_st ::
  "'n wiener \<Rightarrow> ref \<Rightarrow> 'n option \<Rightarrow> string option \<Rightarrow> scalar option \<Rightarrow> 'n world
     \<Rightarrow> (error + 'n pyval) \<times> 'n world" where
  "closeness_vitality_st wi G node weight wiener_index s0 =
     (let s1 = note_call (Enter node wiener_index) s0;
          (I, s2) = adapter_st G s1
      in case whole_index_st wi I weight wiener_index s2 of
           (Inl e, s3) \<Rightarrow> (Inl e, s3)
         | (Inr wiener_index, s3) \<Rightarrow>
             (case node of
                Some v \<Rightarrow>
                  (let (H, s4) = subgraph_st G (set (nodes (graph_of (objects s3 G))) - {v}) s3;
                       s5 = note_call (Removed_index_call v) s4
                   in case wiener_index_st wi H weight s5 of
                        Inl e \<Rightarrow> (Inl e, s5)
                      | Inr after \<Rightarrow> (Inr (Num (fsub wiener_index after)), s5))
              | None \<Rightarrow>
                  (case read_I I of
                     Inl e \<Rightarrow> (Inl e, s3)
                   | Inr i \<Rightarrow>
                       (case run_tasks
                               (\<lambda>v s. closeness_vitality_st wi i (Some v) weight
                                        (Some wiener_index) s)
                               (nodes (graph_of (objects s3 i))) s3 of
                          (Inl e, s4) \<Rightarrow> (Inl e, s4)
                        | (Inr result, s4) \<Rightarrow> (Inr (Dict (dict result)), s4)))))"
  by pat_completeness auto
termination
  by (relation "measure (\<lambda>(wi, G, node, weight, w, s). if node = None then 1 else 0)") auto

text \<open>Every object that exists in \<open>s\<close> exists unchanged in \<open>s'\<close>.\<close>

definition preserves :: "'n world \<Rightarrow> 'n world \<Rightarrow> bool" where
  "preserves s s' = (fresh s \<le> fresh s' \<and> (\<forall>r < fresh s. objects s' r = objects s r))"

text \<open>The log of one per-node task.\<close>

definition task_events :: "scalar \<Rightarrow> 'n \<Rightarrow> 'n event list" where
  "task_events w v = [Enter (Some v) (Some w), Removed_index_call v]"

text \<open>A store with one object, the caller's graph, at reference 0.\<close>

definition world0 :: "int graph_obj \<Rightarrow> int world" where
  "world0 x = \<lparr>objects = (\<lambda>r. x), fresh = 1, calls = []\<rparr>"

subsection \<open>Auxiliary notions\<close>

text \<open>A distance is a finite number or plus infinity.\<close>

definition is_dist :: "scalar \<Rightarrow> bool" where
  "is_dist x = (case x of Fin r \<Rightarrow> True | PInf \<Rightarrow> True | _ \<Rightarrow> False)"

text \<open>The task of one node in the all-nodes path: the pair of the node and its
  single-node result, for the plain graph \<open>i\<close> and the whole-graph index \<open>w\<close>.\<close>

definition node_task :: "'n wiener \<Rightarrow> 'n graph \<Rightarrow> string option \<Rightarrow> scalar \<Rightarrow> 'n
     \<Rightarrow> error + 'n \<times> 'n pyval" where
  "node_task wi i weight w v =
     (case wi (subgraph i (set (nodes i) - {v})) weight of
        Inl e \<Rightarrow> Inl e
      | Inr after \<Rightarrow> Inr (v, Num (fsub w after)))"

section \<open>Properties\<close>

subsection \<open>What the adapter binds\<close>

lemma adapter_Plain: "adapter (Plain g) = None"
  by (simp add: adapter_def)

lemma adapter_Wrapped: "adapter (Wrapped c g) = Some g"
  by (cases c) (simp_all add: adapter_def to_networkx_def)

lemma read_I_simps:
  "read_I None = Inl (UnboundLocalError ''I'')"
  "read_I (Some i) = Inr i"
  by (simp_all add: read_I_def)

subsection \<open>The two paths of the function\<close>

declare closeness_vitality.simps [simp del]

lemma whole_index_simps:
  "whole_index wi I weight (Some w) = Inr w"
  "whole_index wi None weight None = Inl (UnboundLocalError ''I'')"
  "whole_index wi (Some i) weight None = wi i weight"
  by (simp_all add: whole_index_def read_I_simps)

lemma single_node_general:
  "closeness_vitality wi G (Some v) weight wiener_index =
     (case whole_index wi (adapter G) weight wiener_index of
        Inl e \<Rightarrow> Inl e
      | Inr w \<Rightarrow>
          (case wi (subgraph (graph_of G) (set (nodes (graph_of G)) - {v})) weight of
             Inl e \<Rightarrow> Inl e
           | Inr after \<Rightarrow> Inr (Num (fsub w after))))"
  by (subst closeness_vitality.simps) (simp split: sum.splits)

lemma single_node_path:
  "closeness_vitality wi G (Some v) weight (Some w) =
     (case wi (subgraph (graph_of G) (set (nodes (graph_of G)) - {v})) weight of
        Inl e \<Rightarrow> Inl e
      | Inr after \<Rightarrow> Inr (Num (fsub w after)))"
  by (simp add: single_node_general whole_index_simps)

lemma unbound_without_index:
  "closeness_vitality wi (Plain g) node weight None = Inl (UnboundLocalError ''I'')"
  by (subst closeness_vitality.simps) (simp add: adapter_Plain whole_index_simps)

lemma unbound_without_node:
  "closeness_vitality wi (Plain g) None weight (Some w) = Inl (UnboundLocalError ''I'')"
  by (subst closeness_vitality.simps)
     (simp add: adapter_Plain whole_index_simps read_I_simps)

text \<open>
  The all-nodes path once the adapter has bound \<open>I\<close>: one single-node computation per
  node of \<open>I\<close>, each with the same whole-graph index.
\<close>

lemma node_task_call:
  "(case closeness_vitality wi (Plain i) (Some v) weight (Some w) of
      Inl e \<Rightarrow> Inl e | Inr r \<Rightarrow> Inr (v, r)) = node_task wi i weight w v"
  by (simp add: single_node_path node_task_def split: sum.splits)

lemma all_nodes_path:
  assumes "adapter G = Some i"
  shows "closeness_vitality wi G None weight wiener_index =
     (case whole_index wi (Some i) weight wiener_index of
        Inl e \<Rightarrow> Inl e
      | Inr w \<Rightarrow>
          (case Parallel (map (node_task wi i weight w) (nodes i)) of
             Inl e \<Rightarrow> Inl e
           | Inr result \<Rightarrow> Inr (Dict (dict result))))"
  by (subst closeness_vitality.simps)
     (simp add: assms read_I_simps node_task_call split: sum.splits)

lemma nx_wiener_index_cycle3: "nx_wiener_index cycle3 None = Inr (Fin 3)"
  by (simp add: nx_wiener_index_def cycle3_def shortest_path_length_def arcs_def
      edge_length_def)

lemma nx_wiener_index_cycle3_minus_0:
  "nx_wiener_index (subgraph cycle3 (set (nodes cycle3) - {0})) None = Inr (Fin 1)"
  by (simp add: nx_wiener_index_def cycle3_def subgraph_def shortest_path_length_def
      arcs_def edge_length_def)

text \<open>
  C2: for an already-unwrapped graph \<open>G\<close>, a node \<open>v\<close>, a weight attribute and a
  whole-graph Wiener index value, the single-node call returns that value minus the
  Wiener index of the induced subgraph of \<open>G\<close> on \<open>set(G) - {v}\<close>, computed with the
  same weight attribute (an exception of the library is passed on).
\<close>

theorem single_node_returns_difference:
  "closeness_vitality wi (Plain G) (Some v) weight (Some wiener_index) =
     (case wi (subgraph G (set (nodes G) - {v})) weight of
        Inl e \<Rightarrow> Inl e
      | Inr after \<Rightarrow> Inr (Num (fsub wiener_index after)))"
  by (simp add: single_node_path)

theorem single_node_returns_difference_witness:
  "closeness_vitality nx_wiener_index (Plain cycle3) (Some 0) None (Some (Fin 3)) =
     Inr (Num (Fin 2))"
  using single_node_returns_difference
          [of nx_wiener_index cycle3 0 None "Fin 3"]
  by (simp add: nx_wiener_index_cycle3_minus_0)

lemma nx_wiener_index_path1_minus_0:
  "nx_wiener_index (subgraph path1 (set (nodes path1) - {0})) None =
     Inl (LibraryError ''NetworkXPointlessConcept'')"
  by (simp add: nx_wiener_index_def path1_def subgraph_def)

text \<open>
  C10, as the code has it: on a plain graph the call with both a node and a precomputed
  Wiener index reads only \<open>G\<close> and the supplied value and never the local \<open>I\<close>. Its
  result is decided by the library alone: the number \<open>w - after\<close> when the library
  returns the index \<open>after\<close> of the graph without \<open>v\<close>, and the library's exception
  when it raises. With the node or the index left out, the same plain graph makes the
  call raise on the unbound local \<open>I\<close>, so this is the only argument shape a plain
  graph gets past the adapter with.
\<close>

theorem plain_graph_only_with_node_and_index:
  "closeness_vitality wi (Plain G) (Some v) weight (Some w) =
     (case wi (subgraph G (set (nodes G) - {v})) weight of
        Inl e \<Rightarrow> Inl e
      | Inr after \<Rightarrow> Inr (Num (fsub w after)))
   \<and> (node = None \<or> wiener_index = None \<longrightarrow>
      closeness_vitality wi (Plain G) node weight wiener_index =
        Inl (UnboundLocalError ''I''))"
proof (intro conjI impI)
  show "closeness_vitality wi (Plain G) (Some v) weight (Some w) =
     (case wi (subgraph G (set (nodes G) - {v})) weight of
        Inl e \<Rightarrow> Inl e
      | Inr after \<Rightarrow> Inr (Num (fsub w after)))"
    by (simp add: single_node_path)
next
  assume shape: "node = None \<or> wiener_index = None"
  show "closeness_vitality wi (Plain G) node weight wiener_index = Inl (UnboundLocalError ''I'')"
  proof (cases wiener_index)
    case None
    then show ?thesis by (simp add: unbound_without_index)
  next
    case (Some w')
    with shape have "node = None" by simp
    with Some show ?thesis by (simp add: unbound_without_node)
  qed
qed

theorem plain_graph_only_with_node_and_index_witness:
  "closeness_vitality nx_wiener_index (Plain cycle3) (Some 0) None (Some (Fin 3)) =
     Inr (Num (Fin 2))
   \<and> closeness_vitality nx_wiener_index (Plain path1) (Some 0) None (Some (Fin 0)) =
       Inl (LibraryError ''NetworkXPointlessConcept'')
   \<and> closeness_vitality nx_wiener_index (Plain cycle3) None None (Some (Fin 3)) =
       Inl (UnboundLocalError ''I'')
   \<and> closeness_vitality nx_wiener_index (Plain cycle3) (Some 0) None None =
       Inl (UnboundLocalError ''I'')"
  using plain_graph_only_with_node_and_index
          [of nx_wiener_index cycle3 0 None "Fin 3" None "Some (Fin 3)"]
        plain_graph_only_with_node_and_index
          [of nx_wiener_index cycle3 0 None "Fin 3" "Some 0" None]
        plain_graph_only_with_node_and_index
          [of nx_wiener_index path1 0 None "Fin 0" "Some 0" None]
  by (simp add: nx_wiener_index_cycle3_minus_0 nx_wiener_index_path1_minus_0)

text \<open>
  The call does not succeed for every plain graph: on the one-node graph, with its node
  and the index 0, line 76 hands the library the null graph and the library's
  exception ends the call.
\<close>

theorem plain_graph_one_node_counterexample:
  "closeness_vitality nx_wiener_index (Plain path1) (Some 0) None (Some (Fin 0)) =
     Inl (LibraryError ''NetworkXPointlessConcept'')"
  by (simp add: single_node_path nx_wiener_index_path1_minus_0)

subsection \<open>The library's Wiener index on a disconnected graph\<close>

lemma is_dist_simps: "is_dist (Fin r)" "is_dist PInf"
  by (simp_all add: is_dist_def)

lemma is_dist_cases: "is_dist x \<Longrightarrow> x = PInf \<or> (\<exists>r. x = Fin r)"
  by (cases x) (simp_all add: is_dist_def)

lemma is_dist_fmin: "is_dist x \<Longrightarrow> is_dist y \<Longrightarrow> is_dist (fmin x y)"
  by (cases x; cases y) (simp_all add: is_dist_def)

lemma is_dist_fadd: "is_dist x \<Longrightarrow> is_dist y \<Longrightarrow> is_dist (fadd x y)"
  by (cases x; cases y) (simp_all add: is_dist_def)

lemma fmin_finite: "is_dist x \<Longrightarrow> is_dist y \<Longrightarrow> fmin x y \<noteq> PInf \<Longrightarrow> x \<noteq> PInf \<or> y \<noteq> PInf"
  by (cases x; cases y) (simp_all add: is_dist_def)

lemma fadd_finite: "is_dist x \<Longrightarrow> fadd x (Fin l) \<noteq> PInf \<Longrightarrow> x \<noteq> PInf"
  by (cases x) (simp_all add: is_dist_def)

lemma is_dist_fold_fmin:
  "is_dist b \<Longrightarrow> \<forall>x \<in> set xs. is_dist x \<Longrightarrow> is_dist (fold fmin xs b)"
  by (induction xs arbitrary: b) (simp_all add: is_dist_fmin)

lemma fold_fmin_finite:
  "is_dist b \<Longrightarrow> \<forall>x \<in> set xs. is_dist x \<Longrightarrow> fold fmin xs b \<noteq> PInf
     \<Longrightarrow> b \<noteq> PInf \<or> (\<exists>x \<in> set xs. x \<noteq> PInf)"
proof (induction xs arbitrary: b)
  case Nil
  then show ?case by simp
next
  case (Cons x xs)
  have "is_dist (fmin x b)" using Cons.prems by (simp add: is_dist_fmin)
  with Cons.IH [of "fmin x b"] Cons.prems
  have "fmin x b \<noteq> PInf \<or> (\<exists>y \<in> set xs. y \<noteq> PInf)" by simp
  then show ?case
  proof
    assume "fmin x b \<noteq> PInf"
    with fmin_finite [of x b] Cons.prems show ?thesis by auto
  next
    assume "\<exists>y \<in> set xs. y \<noteq> PInf"
    then show ?thesis by auto
  qed
qed

lemma is_dist_hops: "is_dist (hops k A s t)"
proof (induction k arbitrary: t)
  case 0
  show ?case by (simp add: is_dist_simps)
next
  case (Suc k)
  show ?case
    by (auto intro!: is_dist_fold_fmin is_dist_fadd Suc is_dist_simps)
qed

lemma hops_reaches:
  "hops k A s t \<noteq> PInf \<Longrightarrow> (s, t) \<in> ((\<lambda>(u, v, l). (u, v)) ` set A)\<^sup>*"
proof (induction k arbitrary: t)
  case 0
  then show ?case by (simp split: if_splits)
next
  case (Suc k)
  let ?R = "(\<lambda>(u, v, l). (u, v)) ` set A"
  let ?xs = "map (\<lambda>(u, v, l). fadd (hops k A s u) (Fin l)) (filter (\<lambda>(u, v, l). v = t) A)"
  have all: "\<forall>x \<in> set ?xs. is_dist x"
    by (auto intro!: is_dist_fadd is_dist_hops is_dist_simps)
  from Suc.prems have "fold fmin ?xs (hops k A s t) \<noteq> PInf" by simp
  from fold_fmin_finite [OF is_dist_hops all this]
  have "hops k A s t \<noteq> PInf \<or> (\<exists>x \<in> set ?xs. x \<noteq> PInf)" .
  then show ?case
  proof
    assume "hops k A s t \<noteq> PInf"
    then show ?thesis by (rule Suc.IH)
  next
    assume "\<exists>x \<in> set ?xs. x \<noteq> PInf"
    then obtain u l where arc: "(u, t, l) \<in> set A" and fin: "fadd (hops k A s u) (Fin l) \<noteq> PInf"
      by auto
    from fadd_finite [OF is_dist_hops fin] have "(s, u) \<in> ?R\<^sup>*" by (rule Suc.IH)
    moreover from arc have "(u, t) \<in> ?R" by force
    ultimately show ?thesis by (rule rtrancl_into_rtrancl)
  qed
qed

lemma arcs_rel_weight:
  "(\<lambda>(u, v, l). (u, v)) ` set (arcs g weight) = arc_rel g"
  by (force simp: arc_rel_def arcs_def Let_def)

lemma fold_fadd_PInf: "\<forall>x \<in> set xs. is_dist x \<Longrightarrow> fold fadd xs PInf = PInf"
  by (induction xs) (auto dest!: is_dist_cases)

lemma fold_fadd_infinite:
  "\<forall>x \<in> set xs. is_dist x \<Longrightarrow> is_dist b \<Longrightarrow> PInf \<in> set xs \<Longrightarrow> fold fadd xs b = PInf"
proof (induction xs arbitrary: b)
  case Nil
  then show ?case by simp
next
  case (Cons x xs)
  show ?case
  proof (cases "x = PInf")
    case True
    with Cons.prems have "fadd x b = PInf" by (auto dest!: is_dist_cases)
    with Cons.prems show ?thesis by (simp add: fold_fadd_PInf)
  next
    case False
    with Cons.prems have "PInf \<in> set xs" by auto
    moreover have "is_dist (fadd x b)" using Cons.prems by (simp add: is_dist_fadd)
    ultimately show ?thesis using Cons.IH [of "fadd x b"] Cons.prems by simp
  qed
qed

lemma nx_wiener_index_disconnected:
  assumes "disconnected g"
  shows "nx_wiener_index g weight = Inr PInf"
proof -
  from assms obtain a b where a: "a \<in> set (nodes g)" and b: "b \<in> set (nodes g)"
    and no_path: "(a, b) \<notin> (arc_rel g)\<^sup>*"
    by (auto simp: disconnected_def)
  let ?ds = "concat (map (\<lambda>s. map (shortest_path_length g weight s) (nodes g)) (nodes g))"
  have "shortest_path_length g weight a b = PInf"
    using hops_reaches [of "length (nodes g) - 1" "arcs g weight" a b] no_path
    by (auto simp: shortest_path_length_def arcs_rel_weight)
  with a b have "PInf \<in> set ?ds" by force
  moreover have "\<forall>x \<in> set ?ds. is_dist x"
    by (auto simp: shortest_path_length_def is_dist_hops)
  moreover have "is_dist (Fin 0)" by (simp add: is_dist_def)
  ultimately have "fold fadd ?ds (Fin 0) = PInf" by (simp add: fold_fadd_infinite)
  moreover from a have "nodes g \<noteq> []" by auto
  ultimately show ?thesis by (simp add: nx_wiener_index_def)
qed

subsection \<open>A node whose removal disconnects the graph\<close>

lemma disconnected_path3_minus_1: "disconnected (subgraph path3 (set (nodes path3) - {1}))"
  by (auto simp add: disconnected_def subgraph_def path3_def arc_rel_def arcs_def)

lemma nx_wiener_index_path3: "nx_wiener_index path3 None = Inr (Fin 4)"
  by (simp add: nx_wiener_index_def path3_def shortest_path_length_def arcs_def
      edge_length_def)

lemma connected_path3: "\<not> disconnected path3"
proof -
  have R: "arc_rel path3 = {(0, 1), (1, 2), (1, 0), (2, 1)}"
    by (auto simp add: arc_rel_def arcs_def path3_def)
  have e: "(0, 1) \<in> (arc_rel path3)\<^sup>*" "(1, 2) \<in> (arc_rel path3)\<^sup>*"
    "(1, 0) \<in> (arc_rel path3)\<^sup>*" "(2, 1) \<in> (arc_rel path3)\<^sup>*"
    by (auto simp add: R)
  from e(1) e(2) have "(0, 2) \<in> (arc_rel path3)\<^sup>*" by (rule rtrancl_trans)
  moreover from e(4) e(3) have "(2, 0) \<in> (arc_rel path3)\<^sup>*" by (rule rtrancl_trans)
  ultimately show ?thesis
    using e by (auto simp add: disconnected_def path3_def)
qed

text \<open>
  What the single-node branch does with a node whose removal disconnects the graph.
  Let the library report a graph with an unreachable pair by plus infinity. If removing
  \<open>v\<close> leaves some pair of the remaining nodes without a path, and the whole-graph
  Wiener index the call works with (the caller's value, or the one computed from the
  unwrapped graph) is finite, then the call returns negative infinity, as a number
  and not as an error.
\<close>

lemma disconnecting_node_gives_negative_infinity:
  assumes convention: "\<And>g w. disconnected g \<Longrightarrow> wi g w = Inr PInf"
    and cut: "disconnected (subgraph (graph_of G) (set (nodes (graph_of G)) - {v}))"
    and finite_index: "whole_index wi (adapter G) weight wiener_index = Inr (Fin x)"
  shows "closeness_vitality wi G (Some v) weight wiener_index = Inr (Num NInf)"
proof -
  from convention [OF cut]
  have "wi (subgraph (graph_of G) (set (nodes (graph_of G)) - {v})) weight = Inr PInf" .
  with finite_index show ?thesis
    by (simp add: single_node_general)
qed

lemma path3_wrapped_minus_1:
  "closeness_vitality nx_wiener_index (Wrapped ParallelGraph path3) (Some 1) None None =
     Inr (Num NInf)"
proof -
  have cut: "disconnected (subgraph (graph_of (Wrapped ParallelGraph path3))
       (set (nodes (graph_of (Wrapped ParallelGraph path3))) - {1}))"
    using disconnected_path3_minus_1 by simp
  have idx: "whole_index nx_wiener_index (adapter (Wrapped ParallelGraph path3)) None None =
       Inr (Fin 4)"
    by (simp add: adapter_Wrapped whole_index_simps nx_wiener_index_path3)
  from disconnecting_node_gives_negative_infinity
         [of nx_wiener_index, OF nx_wiener_index_disconnected cut idx]
  show ?thesis .
qed

text \<open>
  C5 does not hold of the code: \<^verbatim>\<open>nx.path_graph(3)\<close> is connected and removing its
  middle node disconnects it, yet the call for that node on the plain graph with the
  defaults raises on the unbound local \<open>I\<close> (line 74) instead of returning negative
  infinity. The same graph in a wrapper gives negative infinity.
\<close>

theorem disconnecting_node_raises_on_plain_graph:
  "\<not> disconnected path3
   \<and> disconnected (subgraph path3 (set (nodes path3) - {1}))
   \<and> closeness_vitality nx_wiener_index (Plain path3) (Some 1) None None =
       Inl (UnboundLocalError ''I'')
   \<and> closeness_vitality nx_wiener_index (Wrapped ParallelGraph path3) (Some 1) None None =
       Inr (Num NInf)"
  using connected_path3 disconnected_path3_minus_1
  by (simp add: unbound_without_index path3_wrapped_minus_1)

subsection \<open>A plain graph\<close>

text \<open>
  C1 does not hold of the code: for a graph that is none of the four wrapper types the
  adapter binds nothing, and the call on the plain 3-cycle with the defaults raises on
  the unbound local \<open>I\<close> (line 74).
\<close>

theorem plain_graph_leaves_I_unbound:
  "adapter (Plain cycle3) = None
   \<and> closeness_vitality nx_wiener_index (Plain cycle3) None None None =
       Inl (UnboundLocalError ''I'')"
  by (simp add: adapter_Plain unbound_without_index)

subsection \<open>The store model: objects are never written\<close>

declare closeness_vitality_st.simps [simp del]

lemma preserves_refl: "preserves s s"
  by (simp add: preserves_def)

lemma preserves_trans: "preserves s t \<Longrightarrow> preserves t u \<Longrightarrow> preserves s u"
  by (auto simp: preserves_def)

lemma preserves_new_object: "preserves s (snd (new_object x s))"
  by (simp add: preserves_def new_object_def)

lemma preserves_note_call: "preserves s (note_call e s)"
  by (simp add: preserves_def note_call_def)

lemma preserves_to_networkx_st: "preserves s (snd (to_networkx_st G s))"
  by (simp add: to_networkx_st_def preserves_new_object)

lemma preserves_subgraph_st: "preserves s (snd (subgraph_st G S s))"
  by (simp add: subgraph_st_def preserves_new_object)

lemma preserves_adapter_step:
  "preserves s0 s \<Longrightarrow>
   preserves s0 (snd (if b then (let (r, s') = to_networkx_st G s in (Some r, s')) else (I, s)))"
  using preserves_to_networkx_st [of s G]
  by (auto simp: split_def Let_def elim: preserves_trans)

lemma preserves_adapter_st: "preserves s (snd (adapter_st G s))"
proof -
  obtain I1 s1 where 1: "(if isinstance (objects s G) ParallelMultiDiGraph
       then (let (r, s') = to_networkx_st G s in (Some r, s')) else (None, s)) = (I1, s1)"
    by (cases "(if isinstance (objects s G) ParallelMultiDiGraph
       then (let (r, s') = to_networkx_st G s in (Some r, s')) else (None, s))") 
  obtain I2 s2 where 2: "(if isinstance (objects s1 G) ParallelMultiGraph
       then (let (r, s') = to_networkx_st G s1 in (Some r, s')) else (I1, s1)) = (I2, s2)"
    by (cases "(if isinstance (objects s1 G) ParallelMultiGraph
       then (let (r, s') = to_networkx_st G s1 in (Some r, s')) else (I1, s1))")
  obtain I3 s3 where 3: "(if isinstance (objects s2 G) ParallelDiGraph
       then (let (r, s') = to_networkx_st G s2 in (Some r, s')) else (I2, s2)) = (I3, s3)"
    by (cases "(if isinstance (objects s2 G) ParallelDiGraph
       then (let (r, s') = to_networkx_st G s2 in (Some r, s')) else (I2, s2))")
  obtain I4 s4 where 4: "(if isinstance (objects s3 G) ParallelGraph
       then (let (r, s') = to_networkx_st G s3 in (Some r, s')) else (I3, s3)) = (I4, s4)"
    by (cases "(if isinstance (objects s3 G) ParallelGraph
       then (let (r, s') = to_networkx_st G s3 in (Some r, s')) else (I3, s3))")
  have p1: "preserves s s1"
    using preserves_adapter_step [OF preserves_refl [of s], where b = "isinstance (objects s G) ParallelMultiDiGraph" and G = G and I = None]
    by (simp add: 1)
  have p2: "preserves s s2"
    using preserves_adapter_step [OF p1, where b = "isinstance (objects s1 G) ParallelMultiGraph" and G = G and I = I1]
    by (simp add: 2)
  have p3: "preserves s s3"
    using preserves_adapter_step [OF p2, where b = "isinstance (objects s2 G) ParallelDiGraph" and G = G and I = I2]
    by (simp add: 3)
  have p4: "preserves s s4"
    using preserves_adapter_step [OF p3, where b = "isinstance (objects s3 G) ParallelGraph" and G = G and I = I3]
    by (simp add: 4)
  have "adapter_st G s = (I4, s4)"
    by (simp add: adapter_st_def Let_def 1 2 3 4)
  with p4 show ?thesis by simp
qed

lemma preserves_whole_index_st: "preserves s (snd (whole_index_st wi I weight wiener_index s))"
  by (simp add: whole_index_st_def preserves_refl preserves_note_call
      split: option.splits sum.splits)


lemma single_node_st:
  "closeness_vitality_st wi G (Some v) weight wiener_index s0 =
     (let s1 = note_call (Enter (Some v) wiener_index) s0;
          (I, s2) = adapter_st G s1
      in case whole_index_st wi I weight wiener_index s2 of
           (Inl e, s3) \<Rightarrow> (Inl e, s3)
         | (Inr w, s3) \<Rightarrow>
             (let (H, s4) = subgraph_st G (set (nodes (graph_of (objects s3 G))) - {v}) s3;
                  s5 = note_call (Removed_index_call v) s4
              in case wiener_index_st wi H weight s5 of
                   Inl e \<Rightarrow> (Inl e, s5)
                 | Inr after \<Rightarrow> (Inr (Num (fsub w after)), s5)))"
  by (subst closeness_vitality_st.simps) (simp add: Let_def split: prod.splits sum.splits)

lemma all_nodes_st:
  "closeness_vitality_st wi G None weight wiener_index s0 =
     (let s1 = note_call (Enter None wiener_index) s0;
          (I, s2) = adapter_st G s1
      in case whole_index_st wi I weight wiener_index s2 of
           (Inl e, s3) \<Rightarrow> (Inl e, s3)
         | (Inr w, s3) \<Rightarrow>
             (case read_I I of
                Inl e \<Rightarrow> (Inl e, s3)
              | Inr i \<Rightarrow>
                  (case run_tasks (\<lambda>v s. closeness_vitality_st wi i (Some v) weight (Some w) s)
                          (nodes (graph_of (objects s3 i))) s3 of
                     (Inl e, s4) \<Rightarrow> (Inl e, s4)
                   | (Inr result, s4) \<Rightarrow> (Inr (Dict (dict result)), s4))))"
  by (subst closeness_vitality_st.simps) (simp add: Let_def split: prod.splits sum.splits)

lemma preserves_single_node:
  "preserves s (snd (closeness_vitality_st wi G (Some v) weight wiener_index s))"
proof -
  define s1 where "s1 = note_call (Enter (Some v) wiener_index) s"
  define I where "I = fst (adapter_st G s1)"
  define s2 where "s2 = snd (adapter_st G s1)"
  define s3 where "s3 = snd (whole_index_st wi I weight wiener_index s2)"
  define s4 where "s4 = snd (subgraph_st G (set (nodes (graph_of (objects s3 G))) - {v}) s3)"
  define s5 where "s5 = note_call (Removed_index_call v) s4"
  have p1: "preserves s s1" by (simp add: s1_def preserves_note_call)
  have "preserves s1 s2" by (simp add: s2_def preserves_adapter_st)
  with p1 have p2: "preserves s s2" by (rule preserves_trans)
  have "preserves s2 s3" by (simp add: s3_def preserves_whole_index_st)
  with p2 have p3: "preserves s s3" by (rule preserves_trans)
  have "preserves s3 s4" by (simp add: s4_def preserves_subgraph_st)
  with p3 have p4: "preserves s s4" by (rule preserves_trans)
  have "preserves s4 s5" by (simp add: s5_def preserves_note_call)
  with p4 have p5: "preserves s s5" by (rule preserves_trans)
  have "snd (closeness_vitality_st wi G (Some v) weight wiener_index s) = s3
        \<or> snd (closeness_vitality_st wi G (Some v) weight wiener_index s) = s5"
    by (simp add: single_node_st Let_def split_def s1_def I_def s2_def s3_def s4_def s5_def
        split: sum.splits)
  with p3 p5 show ?thesis by auto
qed

lemma preserves_run_tasks:
  assumes "\<And>v t. preserves t (snd (f v t))"
  shows "preserves s (snd (run_tasks f vs s))"
proof (induction vs arbitrary: s)
  case Nil
  show ?case by (simp add: preserves_refl)
next
  case (Cons v vs)
  obtain r s' where f: "f v s = (r, s')" by (cases "f v s")
  have p: "preserves s s'" using assms [of s v] by (simp add: f)
  show ?case
  proof (cases r)
    case (Inl e)
    with f p show ?thesis by simp
  next
    case (Inr x)
    obtain rs s'' where rt: "run_tasks f vs s' = (rs, s'')" by (cases "run_tasks f vs s'")
    have "preserves s' s''" using Cons.IH [of s'] by (simp add: rt)
    with p have "preserves s s''" by (rule preserves_trans)
    with f Inr rt show ?thesis by (simp split: sum.splits)
  qed
qed

lemma preserves_all_nodes:
  "preserves s (snd (closeness_vitality_st wi G None weight wiener_index s))"
proof -
  define s1 where "s1 = note_call (Enter None wiener_index) s"
  define I where "I = fst (adapter_st G s1)"
  define s2 where "s2 = snd (adapter_st G s1)"
  define s3 where "s3 = snd (whole_index_st wi I weight wiener_index s2)"
  have p1: "preserves s s1" by (simp add: s1_def preserves_note_call)
  have "preserves s1 s2" by (simp add: s2_def preserves_adapter_st)
  with p1 have p2: "preserves s s2" by (rule preserves_trans)
  have "preserves s2 s3" by (simp add: s3_def preserves_whole_index_st)
  with p2 have p3: "preserves s s3" by (rule preserves_trans)
  have tasks: "preserves s (snd (run_tasks
          (\<lambda>v t. closeness_vitality_st wi i (Some v) weight (Some w) t) vs s3))" for i w vs
    using p3 preserves_run_tasks [of "\<lambda>v t. closeness_vitality_st wi i (Some v) weight (Some w) t" s3 vs]
    by (auto intro: preserves_trans preserves_single_node)
  show ?thesis
    using p3 tasks
    by (auto simp add: all_nodes_st Let_def split_def s1_def I_def s2_def s3_def
        split: sum.splits prod.splits)
qed

lemma preserves_closeness_vitality_st:
  "preserves s (snd (closeness_vitality_st wi G node weight wiener_index s))"
  by (cases node) (simp_all add: preserves_all_nodes preserves_single_node)


lemma note_call_simps:
  "objects (note_call e s) = objects s"
  "fresh (note_call e s) = fresh s"
  "calls (note_call e s) = calls s @ [e]"
  by (simp_all add: note_call_def)

lemma new_object_simps:
  "fst (new_object x s) = fresh s"
  "objects (snd (new_object x s)) = (objects s)(fresh s := x)"
  "fresh (snd (new_object x s)) = Suc (fresh s)"
  "calls (snd (new_object x s)) = calls s"
  by (simp_all add: new_object_def)

lemma whole_index_st_simps:
  "whole_index_st wi I weight (Some w) s = (Inr w, s)"
  "whole_index_st wi None weight None s = (Inl (UnboundLocalError ''I''), s)"
  "whole_index_st wi (Some i) weight None s =
     (wi (graph_of (objects s i)) weight, note_call Whole_index_call s)"
  by (simp_all add: whole_index_st_def read_I_simps wiener_index_st_def)

lemma adapter_st_Plain: "objects s G = Plain g \<Longrightarrow> adapter_st G s = (None, s)"
  by (simp add: adapter_st_def)

lemma adapter_st_Wrapped:
  assumes "objects s G = Wrapped c g" and "G < fresh s"
  shows "adapter_st G s = (Some (fresh s), snd (new_object (Plain g) s))"
  using assms
  by (cases c) (simp_all add: adapter_st_def to_networkx_st_def new_object_def to_networkx_def)

text \<open>The state in which the adapter leaves the store, and the reference it binds.\<close>

lemma adapter_st_pure:
  assumes "G < fresh s"
  shows "calls (snd (adapter_st G s)) = calls s
         \<and> (case fst (adapter_st G s) of
               None \<Rightarrow> adapter (objects s G) = None \<and> snd (adapter_st G s) = s
             | Some i \<Rightarrow> i = fresh s \<and> i < fresh (snd (adapter_st G s))
                 \<and> adapter (objects s G) = Some (graph_of (objects (snd (adapter_st G s)) i))
                 \<and> objects (snd (adapter_st G s)) i = Plain (graph_of (objects s G))
                 \<and> objects (snd (adapter_st G s)) G = objects s G)"
proof (cases "objects s G")
  case (Plain g)
  then show ?thesis by (simp add: adapter_st_Plain [of s G g] adapter_Plain)
next
  case (Wrapped c g)
  with assms show ?thesis
    by (simp add: adapter_st_Wrapped [of s G c g] adapter_Wrapped new_object_simps)
qed

lemma result_single_node:
  assumes "G < fresh s"
  shows "fst (closeness_vitality_st wi G (Some v) weight wiener_index s) =
           closeness_vitality wi (objects s G) (Some v) weight wiener_index"
proof -
  let ?s1 = "note_call (Enter (Some v) wiener_index) s"
  let ?S = "set (nodes (graph_of (objects s G))) - {v}"
  have G1: "G < fresh ?s1" using assms by (simp add: note_call_simps)
  note ad = adapter_st_pure [OF G1]
  obtain I s2 where a: "adapter_st G ?s1 = (I, s2)" by (cases "adapter_st G ?s1")
  have after: "wiener_index_st wi (fst (subgraph_st G ?S s3)) weight
                 (note_call (Removed_index_call v) (snd (subgraph_st G ?S s3))) =
               wi (subgraph (graph_of (objects s G)) ?S) weight"
    if "objects s3 G = objects s G" for s3
    using that
    by (simp add: wiener_index_st_def subgraph_st_def new_object_simps note_call_simps)
  show ?thesis
  proof (cases wiener_index)
    case (Some w)
    have "objects s2 G = objects s G"
      using ad a by (auto simp: note_call_simps split: option.splits)
    then show ?thesis
      using Some a after [of s2]
      by (simp add: single_node_st single_node_path whole_index_st_simps Let_def split_def
          split: sum.splits)
  next
    case None
    show ?thesis
    proof (cases I)
      case none: None
      with ad a have "adapter (objects s G) = None" by (simp add: note_call_simps)
      with None none a show ?thesis
        by (simp add: single_node_st single_node_general whole_index_st_simps
            whole_index_simps)
    next
      case (Some i)
      with ad a have i: "adapter (objects s G) = Some (graph_of (objects s2 i))"
        and G2: "objects s2 G = objects s G"
        by (simp_all add: note_call_simps)
      show ?thesis
        using None Some a i after [of "note_call Whole_index_call s2"] G2
        by (simp add: single_node_st single_node_general whole_index_st_simps
            whole_index_simps Let_def split_def note_call_simps split: sum.splits)
    qed
  qed
qed

lemma result_run_tasks:
  assumes res: "\<And>v t. preserves s t \<Longrightarrow> fst (f v t) = g v"
    and pres: "\<And>v t. preserves t (snd (f v t))"
  shows "fst (run_tasks f vs s) =
           Parallel (map (\<lambda>v. case g v of Inl e \<Rightarrow> Inl e | Inr r \<Rightarrow> Inr (v, r)) vs)"
  using res
proof (induction vs arbitrary: s)
  case Nil
  show ?case by simp
next
  case (Cons v vs)
  obtain r s' where f: "f v s = (r, s')" by (cases "f v s")
  have p: "preserves s s'" using pres [of s v] by (simp add: f)
  have g: "g v = r" using Cons.prems [of s v] by (simp add: f preserves_refl)
  have "fst (run_tasks f vs s') =
          Parallel (map (\<lambda>v. case g v of Inl e \<Rightarrow> Inl e | Inr r \<Rightarrow> Inr (v, r)) vs)"
  proof (rule Cons.IH)
    fix u t
    assume "preserves s' t"
    with p have "preserves s t" by (rule preserves_trans)
    then show "fst (f u t) = g u" by (rule Cons.prems)
  qed
  then show ?case
    by (cases "run_tasks f vs s'") (simp add: f g split: sum.splits)
qed

lemma result_all_nodes:
  assumes "G < fresh s"
  shows "fst (closeness_vitality_st wi G None weight wiener_index s) =
           closeness_vitality wi (objects s G) None weight wiener_index"
proof -
  let ?s1 = "note_call (Enter None wiener_index) s"
  have G1: "G < fresh ?s1" using assms by (simp add: note_call_simps)
  note ad = adapter_st_pure [OF G1]
  obtain I s2 where a: "adapter_st G ?s1 = (I, s2)" by (cases "adapter_st G ?s1")
  show ?thesis
  proof (cases I)
    case None
    with ad a have pl: "adapter (objects s G) = None" by (simp add: note_call_simps)
    then obtain g where g: "objects s G = Plain g"
      by (cases "objects s G") (simp_all add: adapter_Wrapped)
    show ?thesis
      using None a g
      by (cases wiener_index)
         (simp_all add: all_nodes_st whole_index_st_simps read_I_simps
            unbound_without_index unbound_without_node)
  next
    case (Some i)
    define g where "g = graph_of (objects s G)"
    from Some ad a have i: "adapter (objects s G) = Some g" and obj: "objects s2 i = Plain g"
      and fr: "i < fresh s2"
      by (auto simp add: note_call_simps g_def)
    have tasks: "fst (run_tasks (\<lambda>v t. closeness_vitality_st wi i (Some v) weight (Some w) t)
                    (nodes g) s3) =
                 Parallel (map (node_task wi g weight w) (nodes g))"
      if s3: "objects s3 i = Plain g" "i < fresh s3" for w s3
    proof -
      have "fst (run_tasks (\<lambda>v t. closeness_vitality_st wi i (Some v) weight (Some w) t)
                    (nodes g) s3) =
            Parallel (map (\<lambda>v. case closeness_vitality wi (Plain g) (Some v) weight (Some w) of
                       Inl e \<Rightarrow> Inl e | Inr r \<Rightarrow> Inr (v, r)) (nodes g))"
      proof (rule result_run_tasks)
        fix v t
        assume p: "preserves s3 t"
        then have "i < fresh t" "objects t i = Plain g"
          using s3 by (auto simp: preserves_def)
        then show "fst (closeness_vitality_st wi i (Some v) weight (Some w) t) =
                     closeness_vitality wi (Plain g) (Some v) weight (Some w)"
          using result_single_node [of i t wi v weight "Some w"] by simp
      next
        fix v t
        show "preserves t (snd (closeness_vitality_st wi i (Some v) weight (Some w) t))"
          by (rule preserves_single_node)
      qed
      also have "\<dots> = Parallel (map (node_task wi g weight w) (nodes g))"
        by (simp add: node_task_call cong: map_cong)
      finally show ?thesis .
    qed
    show ?thesis
    proof (cases wiener_index)
      case None
      show ?thesis
        using None Some a obj fr tasks [of "note_call Whole_index_call s2"]
        by (simp add: all_nodes_st all_nodes_path [OF i] whole_index_st_simps
            whole_index_simps read_I_simps note_call_simps Let_def split_def
            split: sum.splits)
    next
      case w: (Some w)
      show ?thesis
        using w Some a obj fr tasks [of s2]
        by (simp add: all_nodes_st all_nodes_path [OF i] whole_index_st_simps
            whole_index_simps read_I_simps note_call_simps Let_def split_def
            split: sum.splits)
    qed
  qed
qed


lemma calls_single_node:
  assumes "G < fresh s"
  shows "calls (snd (closeness_vitality_st wi G (Some v) weight (Some w) s)) =
           calls s @ task_events w v"
proof -
  let ?s1 = "note_call (Enter (Some v) (Some w)) s"
  have G1: "G < fresh ?s1" using assms by (simp add: note_call_simps)
  from adapter_st_pure [OF G1]
  have "calls (snd (adapter_st G ?s1)) = calls s @ [Enter (Some v) (Some w)]"
    by (simp add: note_call_simps)
  then show ?thesis
    by (simp add: single_node_st whole_index_st_simps Let_def split_def subgraph_st_def
        new_object_simps note_call_simps task_events_def split: sum.splits)
qed

lemma calls_run_tasks:
  assumes ev: "\<And>v t. preserves s t \<Longrightarrow> calls (snd (f v t)) = calls t @ ev v"
    and pres: "\<And>v t. preserves t (snd (f v t))"
  shows "\<exists>k \<le> length vs.
           calls (snd (run_tasks f vs s)) = calls s @ concat (map ev (take k vs))
           \<and> (\<forall>rs. fst (run_tasks f vs s) = Inr rs \<longrightarrow> k = length vs)"
  using ev
proof (induction vs arbitrary: s)
  case Nil
  show ?case by simp
next
  case (Cons v vs)
  obtain r s' where f: "f v s = (r, s')" by (cases "f v s")
  have p: "preserves s s'" using pres [of s v] by (simp add: f)
  have c: "calls s' = calls s @ ev v" using Cons.prems [of s v] by (simp add: f preserves_refl)
  show ?case
  proof (cases r)
    case (Inl e)
    with f c have "calls (snd (run_tasks f (v # vs) s)) = calls s @ concat (map ev (take 1 (v # vs)))
        \<and> (\<forall>rs. fst (run_tasks f (v # vs) s) = Inr rs \<longrightarrow> 1 = length (v # vs))"
      by simp
    then show ?thesis by (intro exI [of _ 1]) simp
  next
    case (Inr x)
    have "\<exists>k \<le> length vs.
           calls (snd (run_tasks f vs s')) = calls s' @ concat (map ev (take k vs))
           \<and> (\<forall>rs. fst (run_tasks f vs s') = Inr rs \<longrightarrow> k = length vs)"
    proof (rule Cons.IH)
      fix u t
      assume "preserves s' t"
      with p have "preserves s t" by (rule preserves_trans)
      then show "calls (snd (f u t)) = calls t @ ev u" by (rule Cons.prems)
    qed
    then obtain k where k: "k \<le> length vs"
      "calls (snd (run_tasks f vs s')) = calls s' @ concat (map ev (take k vs))"
      "\<forall>rs. fst (run_tasks f vs s') = Inr rs \<longrightarrow> k = length vs"
      by blast
    obtain rs s'' where rt: "run_tasks f vs s' = (rs, s'')" by (cases "run_tasks f vs s'")
    have "calls (snd (run_tasks f (v # vs) s)) = calls s @ concat (map ev (take (Suc k) (v # vs)))
        \<and> (\<forall>rs. fst (run_tasks f (v # vs) s) = Inr rs \<longrightarrow> Suc k = length (v # vs))"
      using f Inr rt k c by (auto split: sum.splits)
    with k(1) show ?thesis by (intro exI [of _ "Suc k"]) simp
  qed
qed

lemma calls_all_nodes_plain:
  assumes "objects s G = Plain g"
  shows "calls (snd (closeness_vitality_st wi G None weight wiener_index s)) =
           calls s @ [Enter None wiener_index]"
proof -
  have a: "adapter_st G (note_call (Enter None wopt) s) = (None, note_call (Enter None wopt) s)"
    for wopt :: "scalar option"
    using assms by (intro adapter_st_Plain [of _ _ g]) (simp add: note_call_simps)
  show ?thesis
    by (cases wiener_index)
       (simp_all add: all_nodes_st a whole_index_st_simps read_I_simps note_call_simps)
qed

lemma calls_all_nodes_wrapped:
  assumes "objects s G = Wrapped c g" and "G < fresh s"
  shows "\<exists>k \<le> length (nodes g).
           calls (snd (closeness_vitality_st wi G None weight wiener_index s)) =
             calls s @ [Enter None wiener_index]
               @ (case wiener_index of None \<Rightarrow> [Whole_index_call] | Some w \<Rightarrow> [])
               @ (case whole_index wi (Some g) weight wiener_index of
                    Inl e \<Rightarrow> []
                  | Inr w \<Rightarrow> concat (map (task_events w) (take k (nodes g))))
           \<and> (\<forall>d. fst (closeness_vitality_st wi G None weight wiener_index s) = Inr d
                 \<longrightarrow> k = length (nodes g))"
proof -
  let ?s1 = "note_call (Enter None wiener_index) s"
  let ?s2 = "snd (new_object (Plain g) ?s1)"
  have "objects ?s1 G = Wrapped c g" "G < fresh ?s1"
    using assms by (simp_all add: note_call_simps)
  from adapter_st_Wrapped [OF this]
  have a: "adapter_st G ?s1 = (Some (fresh s), ?s2)" by (simp add: note_call_simps)
  have tasks: "\<exists>k \<le> length (nodes g).
      calls (snd (run_tasks (\<lambda>v t. closeness_vitality_st wi (fresh s) (Some v) weight (Some w) t)
                    (nodes g) s3)) = calls s3 @ concat (map (task_events w) (take k (nodes g)))
      \<and> (\<forall>rs. fst (run_tasks (\<lambda>v t. closeness_vitality_st wi (fresh s) (Some v) weight (Some w) t)
                    (nodes g) s3) = Inr rs \<longrightarrow> k = length (nodes g))"
    if s3: "fresh s < fresh s3" for w s3
  proof (rule calls_run_tasks)
    fix v t
    assume "preserves s3 t"
    with s3 have "fresh s < fresh t" by (auto simp: preserves_def)
    then show "calls (snd (closeness_vitality_st wi (fresh s) (Some v) weight (Some w) t)) =
                 calls t @ task_events w v"
      by (rule calls_single_node)
  next
    fix v t
    show "preserves t (snd (closeness_vitality_st wi (fresh s) (Some v) weight (Some w) t))"
      by (rule preserves_single_node)
  qed
  have obj2: "objects ?s2 (fresh s) = Plain g" "fresh s < fresh ?s2"
    "calls ?s2 = calls s @ [Enter None wiener_index]"
    by (simp_all add: new_object_simps note_call_simps)
  show ?thesis
  proof (cases wiener_index)
    case (Some w)
    from tasks [of ?s2 w] obj2 obtain k where k: "k \<le> length (nodes g)"
      "calls (snd (run_tasks (\<lambda>v t. closeness_vitality_st wi (fresh s) (Some v) weight (Some w) t)
                    (nodes g) ?s2)) =
         calls s @ [Enter None wiener_index] @ concat (map (task_events w) (take k (nodes g)))"
      "\<forall>rs. fst (run_tasks (\<lambda>v t. closeness_vitality_st wi (fresh s) (Some v) weight (Some w) t)
                    (nodes g) ?s2) = Inr rs \<longrightarrow> k = length (nodes g)"
      by auto
    have "calls (snd (closeness_vitality_st wi G None weight wiener_index s)) =
             calls s @ [Enter None wiener_index]
               @ (case wiener_index of None \<Rightarrow> [Whole_index_call] | Some w \<Rightarrow> [])
               @ (case whole_index wi (Some g) weight wiener_index of
                    Inl e \<Rightarrow> []
                  | Inr w \<Rightarrow> concat (map (task_events w) (take k (nodes g))))
           \<and> (\<forall>d. fst (closeness_vitality_st wi G None weight wiener_index s) = Inr d
                 \<longrightarrow> k = length (nodes g))"
      using Some a obj2 k(2,3)
      by (auto simp add: all_nodes_st whole_index_st_simps whole_index_simps read_I_simps
          Let_def split_def split: sum.splits)
    with k(1) show ?thesis by blast
  next
    case None
    let ?s3 = "note_call Whole_index_call ?s2"
    have obj3: "fresh s < fresh ?s3"
      "calls ?s3 = calls s @ [Enter None wiener_index, Whole_index_call]"
      by (simp_all add: new_object_simps note_call_simps)
    show ?thesis
    proof (cases "wi g weight")
      case (Inl e)
      have "calls (snd (closeness_vitality_st wi G None weight wiener_index s)) =
             calls s @ [Enter None wiener_index]
               @ (case wiener_index of None \<Rightarrow> [Whole_index_call] | Some w \<Rightarrow> [])
               @ (case whole_index wi (Some g) weight wiener_index of
                    Inl e \<Rightarrow> []
                  | Inr w \<Rightarrow> concat (map (task_events w) (take 0 (nodes g))))
           \<and> (\<forall>d. fst (closeness_vitality_st wi G None weight wiener_index s) = Inr d
                 \<longrightarrow> 0 = length (nodes g))"
        using None Inl a obj2 obj3
        by (simp add: all_nodes_st whole_index_st_simps whole_index_simps read_I_simps
            Let_def split_def)
      then show ?thesis by (intro exI [of _ 0]) simp
    next
      case (Inr w)
      from tasks [of ?s3 w] obj3 obtain k where k: "k \<le> length (nodes g)"
        "calls (snd (run_tasks (\<lambda>v t. closeness_vitality_st wi (fresh s) (Some v) weight (Some w) t)
                      (nodes g) ?s3)) =
           calls s @ [Enter None wiener_index, Whole_index_call]
             @ concat (map (task_events w) (take k (nodes g)))"
        "\<forall>rs. fst (run_tasks (\<lambda>v t. closeness_vitality_st wi (fresh s) (Some v) weight (Some w) t)
                      (nodes g) ?s3) = Inr rs \<longrightarrow> k = length (nodes g)"
        by auto
      have "calls (snd (closeness_vitality_st wi G None weight wiener_index s)) =
             calls s @ [Enter None wiener_index]
               @ (case wiener_index of None \<Rightarrow> [Whole_index_call] | Some w \<Rightarrow> [])
               @ (case whole_index wi (Some g) weight wiener_index of
                    Inl e \<Rightarrow> []
                  | Inr w \<Rightarrow> concat (map (task_events w) (take k (nodes g))))
           \<and> (\<forall>d. fst (closeness_vitality_st wi G None weight wiener_index s) = Inr d
                 \<longrightarrow> k = length (nodes g))"
        using None Inr a obj2 k(2,3)
        by (auto simp add: all_nodes_st whole_index_st_simps whole_index_simps read_I_simps
            note_call_simps Let_def split_def split: sum.splits)
      with k(1) show ?thesis by blast
    qed
  qed
qed

lemma store_model_result:
  assumes "G < fresh s"
  shows "fst (closeness_vitality_st wi G node weight wiener_index s) =
           closeness_vitality wi (objects s G) node weight wiener_index"
  using assms by (cases node) (simp_all add: result_all_nodes result_single_node)

subsection \<open>Dictionaries\<close>

lemma keys_dict_set: "fst ` set (dict_set d k v) = insert k (fst ` set d)"
proof (induction d)
  case Nil
  show ?case by simp
next
  case (Cons p d)
  obtain k' v' where p: "p = (k', v')" by (cases p)
  show ?case
  proof (cases "k' = k")
    case True
    then show ?thesis by (simp add: p)
  next
    case False
    then show ?thesis using Cons.IH by (simp add: p insert_commute)
  qed
qed

lemma distinct_dict_set: "distinct (map fst d) \<Longrightarrow> distinct (map fst (dict_set d k v))"
proof (induction d)
  case Nil
  show ?case by simp
next
  case (Cons p d)
  obtain k' v' where p: "p = (k', v')" by (cases p)
  from Cons show ?case by (auto simp add: p keys_dict_set)
qed

lemma dict_set_new: "k \<notin> fst ` set d \<Longrightarrow> dict_set d k v = d @ [(k, v)]"
  by (induction d) auto

lemma keys_foldl_dict_set:
  "fst ` set (foldl (\<lambda>d (k, v). dict_set d k v) acc ps) = fst ` set acc \<union> fst ` set ps"
proof (induction ps arbitrary: acc)
  case Nil
  show ?case by simp
next
  case (Cons p ps)
  obtain k v where p: "p = (k, v)" by (cases p)
  show ?case by (simp add: p Cons.IH keys_dict_set)
qed

lemma distinct_foldl_dict_set:
  "distinct (map fst acc) \<Longrightarrow> distinct (map fst (foldl (\<lambda>d (k, v). dict_set d k v) acc ps))"
proof (induction ps arbitrary: acc)
  case Nil
  then show ?case by simp
next
  case (Cons p ps)
  obtain k v where p: "p = (k, v)" by (cases p)
  from Cons.prems have "distinct (map fst (dict_set acc k v))" by (rule distinct_dict_set)
  from Cons.IH [OF this] show ?case by (simp add: p)
qed

lemma foldl_dict_set_distinct:
  "distinct (map fst (acc @ ps)) \<Longrightarrow> foldl (\<lambda>d (k, v). dict_set d k v) acc ps = acc @ ps"
proof (induction ps arbitrary: acc)
  case Nil
  show ?case by simp
next
  case (Cons p ps)
  obtain k v where p: "p = (k, v)" by (cases p)
  from Cons.prems have new: "k \<notin> fst ` set acc" by (auto simp: p)
  from Cons.prems have "distinct (map fst ((acc @ [(k, v)]) @ ps))" by (simp add: p)
  from Cons.IH [OF this] show ?case by (simp add: p dict_set_new [OF new])
qed

lemma keys_dict: "fst ` set (dict ps) = fst ` set ps"
  by (simp add: dict_def keys_foldl_dict_set)

lemma distinct_dict: "distinct (map fst (dict ps))"
  by (simp add: dict_def distinct_foldl_dict_set)

lemma dict_distinct: "distinct (map fst ps) \<Longrightarrow> dict ps = ps"
  using foldl_dict_set_distinct [of "[]" ps] by (simp add: dict_def)

lemma dict_arrival_order:
  assumes "mset qs = mset ps" and "distinct (map fst ps)"
  shows "map_of (dict qs) = map_of (dict ps) \<and> set (map fst (dict qs)) = set (map fst ps)
         \<and> distinct (map fst (dict qs))"
proof -
  from assms(1) have "mset (map fst qs) = mset (map fst ps)" by (metis mset_map)
  with assms(2) have dq: "distinct (map fst qs)" by (metis mset_eq_imp_distinct_iff)
  from assms(1) have "set qs = set ps" by (rule mset_eq_setD)
  with dq assms(2) have "map_of qs = map_of ps" by (simp add: map_of_inject_set)
  with dq assms(2) \<open>set qs = set ps\<close> show ?thesis by (simp add: dict_distinct)
qed

subsection \<open>What holds when the graph comes in a wrapper\<close>

text \<open>
  For a graph in one of the four wrappers the adapter binds \<open>I\<close> and both paths run.
  The lemmas of this subsection are the properties of the all-nodes path, of the
  precomputed index and of the wrappers that hold there; the theorems after them show
  where a plain graph departs from each.
\<close>

lemma Parallel_node_tasks:
  "Parallel (map (node_task wi i weight w) vs) = Inr ps \<Longrightarrow> map fst ps = vs"
proof (induction vs arbitrary: ps)
  case Nil
  then show ?case by auto
next
  case (Cons v vs)
  then show ?case
    by (auto simp: node_task_def split: sum.splits)
qed

lemma Parallel_succeeds:
  "(\<And>v. v \<in> set vs \<Longrightarrow> \<exists>r. f v = Inr r) \<Longrightarrow> \<exists>rs. Parallel (map f vs) = Inr rs"
proof (induction vs)
  case Nil
  show ?case by simp
next
  case (Cons v vs)
  then obtain r where "f v = Inr r" by auto
  moreover from Cons obtain rs where "Parallel (map f vs) = Inr rs" by auto
  ultimately show ?case by simp
qed

lemma wrapped_all_nodes_keys:
  assumes "adapter G = Some i"
    and "closeness_vitality wi G None weight wiener_index = Inr (Dict d)"
  shows "set (map fst d) = set (nodes i) \<and> distinct (map fst d)"
proof -
  from assms obtain w ps where ps: "Parallel (map (node_task wi i weight w) (nodes i)) = Inr ps"
    and d: "d = dict ps"
    by (auto simp: all_nodes_path split: sum.splits)
  from Parallel_node_tasks [OF ps] have "fst ` set ps = set (nodes i)"
    by (metis set_map)
  then show ?thesis
    by (simp add: d keys_dict distinct_dict)
qed

lemma wrapped_all_nodes_returns:
  assumes "adapter G = Some i"
    and "\<exists>w. whole_index wi (Some i) weight wiener_index = Inr w"
    and "\<And>v. v \<in> set (nodes i) \<Longrightarrow> \<exists>a. wi (subgraph i (set (nodes i) - {v})) weight = Inr a"
  shows "\<exists>d. closeness_vitality wi G None weight wiener_index = Inr (Dict d)"
proof -
  from assms(2) obtain w where w: "whole_index wi (Some i) weight wiener_index = Inr w" ..
  have "\<exists>r. node_task wi i weight w v = Inr r" if "v \<in> set (nodes i)" for v
    using assms(3) [OF that] by (auto simp: node_task_def)
  from Parallel_succeeds [of "nodes i" "node_task wi i weight w", OF this]
  obtain rs where "Parallel (map (node_task wi i weight w) (nodes i)) = Inr rs" by auto
  with w show ?thesis by (simp add: all_nodes_path [OF assms(1)])
qed

lemma wrapped_precomputed_index:
  assumes "adapter G = Some i" and "wi i weight = Inr w"
  shows "closeness_vitality wi G node weight (Some w) = closeness_vitality wi G node weight None"
proof (cases node)
  case None
  with assms show ?thesis by (simp add: all_nodes_path whole_index_simps)
next
  case (Some v)
  with assms show ?thesis by (simp add: single_node_general whole_index_simps)
qed

lemma wrapper_kind_irrelevant:
  "closeness_vitality wi (Wrapped c g) node weight wiener_index =
   closeness_vitality wi (Wrapped c' g) node weight wiener_index"
  by (cases node)
     (simp_all add: all_nodes_path [OF adapter_Wrapped] single_node_general adapter_Wrapped
        cong: sum.case_cong)

lemma wrapped_single_node_as_plain:
  "closeness_vitality wi (Wrapped c g) (Some v) weight (Some w) =
   closeness_vitality wi (Plain g) (Some v) weight (Some w)"
  by (simp add: single_node_path)

lemma cycle3_wrapped:
  "closeness_vitality nx_wiener_index (Wrapped ParallelGraph cycle3) None None None =
     Inr (Dict [(0, Num (Fin 2)), (1, Num (Fin 2)), (2, Num (Fin 2))])"
  by code_simp

lemma path3_wrapped:
  "closeness_vitality nx_wiener_index (Wrapped ParallelGraph path3) None None None =
     Inr (Dict [(0, Num (Fin 3)), (1, Num NInf), (2, Num (Fin 3))])"
  by code_simp

subsection \<open>The input graph is only read\<close>

text \<open>
  C9: the call never mutates the input graph. In the store model every object that
  existed before the call, the input graph among them, is the same object after it,
  whatever the arguments and whether the call returns or raises: the function only
  reads the graph and builds new objects (the converted graph, the subgraphs).
\<close>

theorem input_graph_never_mutated:
  "r < fresh s \<Longrightarrow>
     objects (snd (closeness_vitality_st wi G node weight wiener_index s)) r = objects s r"
  using preserves_closeness_vitality_st [of s wi G node weight wiener_index]
  by (simp add: preserves_def)

theorem input_graph_never_mutated_witness:
  "(0::nat) < fresh (world0 (Wrapped ParallelGraph cycle3))
   \<and> objects (snd (closeness_vitality_st nx_wiener_index 0 None None None
                     (world0 (Wrapped ParallelGraph cycle3)))) 0 =
       Wrapped ParallelGraph cycle3"
  using input_graph_never_mutated
          [of 0 "world0 (Wrapped ParallelGraph cycle3)" nx_wiener_index 0 None None None]
  by (simp add: world0_def)

subsection \<open>Where a plain graph departs from the specification\<close>

text \<open>
  C3 does not hold of the code: a graph in a wrapper and the same graph passed plain
  give different results. On \<^verbatim>\<open>nx.path_graph(3)\<close> with the defaults the wrapped call
  returns the dictionary of vitalities and the plain call raises on the unbound local.
\<close>

theorem wrapped_and_plain_differ:
  "closeness_vitality nx_wiener_index (Wrapped ParallelGraph path3) None None None =
     Inr (Dict [(0, Num (Fin 3)), (1, Num NInf), (2, Num (Fin 3))])
   \<and> closeness_vitality nx_wiener_index (Plain path3) None None None =
       Inl (UnboundLocalError ''I'')"
  by (simp add: path3_wrapped unbound_without_index)

text \<open>
  C4 does not hold of the code: for the plain 3-cycle the all-nodes call returns no
  mapping at all, with the Wiener index left out (line 74) and with it supplied
  (line 78).
\<close>

theorem plain_graph_returns_no_mapping:
  "closeness_vitality nx_wiener_index (Plain cycle3) None None None =
     Inl (UnboundLocalError ''I'')
   \<and> closeness_vitality nx_wiener_index (Plain cycle3) None None (Some (Fin 3)) =
       Inl (UnboundLocalError ''I'')"
  by (simp add: unbound_without_index unbound_without_node)

text \<open>
  C6 does not hold of the code: on the plain 3-cycle and node 0, the call with the
  freshly computed Wiener index 3 returns 2, and the call with the index left out
  raises.
\<close>

theorem precomputed_index_differs_on_plain_graph:
  "nx_wiener_index cycle3 None = Inr (Fin 3)
   \<and> closeness_vitality nx_wiener_index (Plain cycle3) (Some 0) None (Some (Fin 3)) =
       Inr (Num (Fin 2))
   \<and> closeness_vitality nx_wiener_index (Plain cycle3) (Some 0) None None =
       Inl (UnboundLocalError ''I'')"
  by (simp add: nx_wiener_index_cycle3 single_node_path nx_wiener_index_cycle3_minus_0
      unbound_without_index)

text \<open>
  C7 does not hold of the code: in the all-nodes call on the plain 3-cycle with no
  index supplied, the log ends after the entry of the call. The whole-graph Wiener
  index is never computed and no per-node task is started; the call raises.
\<close>

theorem index_not_computed_on_plain_graph:
  "fst (closeness_vitality_st nx_wiener_index 0 None None None (world0 (Plain cycle3))) =
     Inl (UnboundLocalError ''I'')
   \<and> calls (snd (closeness_vitality_st nx_wiener_index 0 None None None
                   (world0 (Plain cycle3)))) =
       [Enter None None]"
  by (simp add: store_model_result calls_all_nodes_plain [of _ _ cycle3] world0_def
      unbound_without_index)

text \<open>
  C8 does not hold of the code as the docstring has it: the all-nodes call on the
  plain \<^verbatim>\<open>nx.cycle_graph(3)\<close> raises. The vitality 2.0 of every node is what the call
  returns for the same graph in a wrapper.
\<close>

theorem cycle3_plain_raises:
  "closeness_vitality nx_wiener_index (Plain cycle3) None None None =
     Inl (UnboundLocalError ''I'')
   \<and> closeness_vitality nx_wiener_index (Wrapped ParallelGraph cycle3) None None None =
       Inr (Dict [(0, Num (Fin 2)), (1, Num (Fin 2)), (2, Num (Fin 2))])"
  by (simp add: unbound_without_index cycle3_wrapped)

end
